theory Spec2Isabelle
  imports Main "HOL-Library.Char_ord"
begin

section \<open>Strings\<close>

text \<open>
  A Python \<open>str\<close> is a sequence of code points; here it is a \<open>string\<close>, one \<open>char\<close> per
  code point, so the model covers the code points below 256.

  \<open>isspace\<close> is \<open>str.isspace\<close> on one character, which is also what \<open>\s\<close> matches in a
  \<open>str\<close> pattern and what \<open>str.strip()\<close> removes: below 256 these are the characters
  9 to 13, 28 to 31, 32, 133 and 160.
\<close>

definition isspace :: "char \<Rightarrow> bool" where
  "isspace c \<longleftrightarrow> c \<in> set [CHR 0x09, CHR 0x0A, CHR 0x0B, CHR 0x0C, CHR 0x0D,
      CHR 0x1C, CHR 0x1D, CHR 0x1E, CHR 0x1F, CHR '' '', CHR 0x85, CHR 0xA0]"

definition ascii_uppercase :: string where
  "ascii_uppercase = ''ABCDEFGHIJKLMNOPQRSTUVWXYZ''"

definition ascii_lowercase :: string where
  "ascii_lowercase = ''abcdefghijklmnopqrstuvwxyz''"

text \<open>
  Case mapping of one character. Only the ASCII letters change: every text the source
  compares after a case mapping (the four file extensions, the literals and ranges of the
  patterns) is ASCII, and no other code point below 256 is mapped onto an ASCII letter.
\<close>

definition lower_char :: "char \<Rightarrow> char" where
  "lower_char c = (case map_of (zip ascii_uppercase ascii_lowercase) c of
      Some d \<Rightarrow> d | None \<Rightarrow> c)"

definition upper_char :: "char \<Rightarrow> char" where
  "upper_char c = (case map_of (zip ascii_lowercase ascii_uppercase) c of
      Some d \<Rightarrow> d | None \<Rightarrow> c)"

text \<open>\<open>s.lower()\<close>, \<open>s.strip()\<close>, \<open>s.replace(a, b)\<close> for single characters, \<open>sep.join(xs)\<close>
  and \<open>s.endswith((suffix, ...))\<close>.\<close>

definition lower :: "string \<Rightarrow> string" where
  "lower s = map lower_char s"

definition strip :: "string \<Rightarrow> string" where
  "strip s = rev (dropWhile isspace (rev (dropWhile isspace s)))"

definition replace :: "string \<Rightarrow> char \<Rightarrow> char \<Rightarrow> string" where
  "replace s a b = map (\<lambda>c. if c = a then b else c) s"

fun join :: "string \<Rightarrow> string list \<Rightarrow> string" where
  "join sep [] = []"
| "join sep [x] = x"
| "join sep (x # y # xs) = x @ sep @ join sep (y # xs)"

definition endswith :: "string \<Rightarrow> string list \<Rightarrow> bool" where
  "endswith s sufs \<longleftrightarrow>
     (\<exists>suf \<in> set sufs. length suf \<le> length s \<and> drop (length s - length suf) s = suf)"

section \<open>Regular expressions as \<open>re\<close> matches them\<close>

text \<open>
  The constructs that occur in the patterns of \<open>process_upload\<close>. A character class is a
  list of items. Every search of the source that involves letters passes
  \<open>re.IGNORECASE\<close>, so literals and ranges compare case-insensitively: a literal matches a
  character with the same lower case, a range matches a character when the character, its
  lower case or its upper case lies in the range.
\<close>

datatype item = Ch char | Rng char char | Space | NonSpace | Digit

fun in_item :: "item \<Rightarrow> char \<Rightarrow> bool" where
  "in_item (Ch a) c = (lower_char c = lower_char a)"
| "in_item (Rng a b) c = ((a \<le> c \<and> c \<le> b) \<or> (a \<le> lower_char c \<and> lower_char c \<le> b)
      \<or> (a \<le> upper_char c \<and> upper_char c \<le> b))"
| "in_item Space c = isspace c"
| "in_item NonSpace c = (\<not> isspace c)"
| "in_item Digit c = (CHR ''0'' \<le> c \<and> c \<le> CHR ''9'')"

datatype rx =
    Eps
  | Lit char
  | In "item list"
  | NotIn "item list"
  | Seq rx rx
  | Alt rx rx
  | Star rx
  | MinStar rx
  | Grp nat rx
  | Ahead rx
  | Dollar

type_synonym caps = "nat \<rightharpoonup> string"

text \<open>
  \<open>ms r s g\<close> lists, in the order in which the backtracking matcher of \<open>re\<close> tries them, the
  ways in which \<open>r\<close> matches a prefix of \<open>s\<close>: each is the text left after the match and
  the groups captured so far (\<open>g\<close> holds the groups captured before \<open>r\<close>). The head of the
  list is the match \<open>re\<close> returns at this position. \<open>Alt\<close> tries its left branch first,
  \<open>Star\<close> is greedy (one more repetition before stopping), \<open>MinStar\<close> is lazy (stopping
  before one more repetition), \<open>Ahead\<close> is \<open>(?=...)\<close> and consumes nothing, and
  \<open>Dollar\<close> is \<open>$\<close> without \<open>re.MULTILINE\<close>: the end of the text, or just before a
  newline that ends the text. A repetition goes on only after a repetition that consumed
  something; every repeated expression of the source is a single character class.
\<close>

fun ms :: "rx \<Rightarrow> string \<Rightarrow> caps \<Rightarrow> (string \<times> caps) list" where
  "ms Eps s g = [(s, g)]"
| "ms (Lit a) s g = (case s of [] \<Rightarrow> []
      | c # t \<Rightarrow> if lower_char c = lower_char a then [(t, g)] else [])"
| "ms (In its) s g = (case s of [] \<Rightarrow> []
      | c # t \<Rightarrow> if (\<exists>i \<in> set its. in_item i c) then [(t, g)] else [])"
| "ms (NotIn its) s g = (case s of [] \<Rightarrow> []
      | c # t \<Rightarrow> if (\<exists>i \<in> set its. in_item i c) then [] else [(t, g)])"
| "ms (Seq r1 r2) s g = concat (map (\<lambda>(s', g'). ms r2 s' g') (ms r1 s g))"
| "ms (Alt r1 r2) s g = ms r1 s g @ ms r2 s g"
| "ms (Star r) s g =
     concat (map (\<lambda>(s', g'). if length s' < length s then ms (Star r) s' g' else [])
       (ms r s g)) @ [(s, g)]"
| "ms (MinStar r) s g =
     (s, g) # concat (map (\<lambda>(s', g'). if length s' < length s then ms (MinStar r) s' g' else [])
       (ms r s g))"
| "ms (Grp n r) s g =
     map (\<lambda>(s', g'). (s', g'(n \<mapsto> take (length s - length s') s))) (ms r s g)"
| "ms (Ahead r) s g = (case ms r s g of [] \<Rightarrow> [] | (s', g') # _ \<Rightarrow> [(s, g')])"
| "ms Dollar s g = (if s = [] \<or> s = ''\<newline>'' then [(s, g)] else [])"

text \<open>\<open>r?\<close>, \<open>r+\<close>, \<open>r+?\<close>, a sequence of expressions and a literal word.\<close>

definition Opt :: "rx \<Rightarrow> rx" where
  "Opt r = Alt r Eps"

definition Plus :: "rx \<Rightarrow> rx" where
  "Plus r = Seq r (Star r)"

definition MinPlus :: "rx \<Rightarrow> rx" where
  "MinPlus r = Seq r (MinStar r)"

definition seqs :: "rx list \<Rightarrow> rx" where
  "seqs rs = foldr Seq rs Eps"

definition str :: "string \<Rightarrow> rx" where
  "str w = seqs (map Lit w)"

definition alts :: "string list \<Rightarrow> rx" where
  "alts ws = foldr (\<lambda>w r. Alt (str w) r) (butlast ws) (str (last ws))"

text \<open>
  \<open>re.search(r, text)\<close>: the match at the first position of the text, from left to right
  and up to its end, where \<open>r\<close> matches; the result is the groups of that match.
\<close>

fun search :: "rx \<Rightarrow> string \<Rightarrow> caps option" where
  "search r [] = (case ms r [] Map.empty of [] \<Rightarrow> None | (s', g) # _ \<Rightarrow> Some g)"
| "search r (c # cs) =
     (case ms r (c # cs) Map.empty of [] \<Rightarrow> search r cs | (s', g) # _ \<Rightarrow> Some g)"

text \<open>
  \<open>re.sub(r, repl, s)\<close> for an expression \<open>r\<close> that matches no empty text, as the one
  expression the source substitutes, \<open>\s+\<close>: from left to right, each match is replaced by
  \<open>repl\<close> and the scan goes on after it; a character where \<open>r\<close> does not match is copied.
\<close>

function re_sub :: "rx \<Rightarrow> string \<Rightarrow> string \<Rightarrow> string" where
  "re_sub r repl [] = []"
| "re_sub r repl (c # cs) =
     (case ms r (c # cs) Map.empty of
        [] \<Rightarrow> c # re_sub r repl cs
      | (s', g) # _ \<Rightarrow>
          if length s' < length (c # cs) then repl @ re_sub r repl s'
          else c # re_sub r repl cs)"
  by pat_completeness auto
termination
  by (relation "measure (\<lambda>(r, repl, s). length s)") auto

section \<open>The field patterns of \<open>process_upload\<close>\<close>

definition ws :: rx where
  "ws = In [Space]"

definition rest_of_line :: rx where
  "rest_of_line = Grp 1 (Plus (NotIn [Ch CHR ''\<newline>'']))"

definition any_lazy :: rx where
  "any_lazy = Grp 1 (MinPlus (In [Space, NonSpace]))"

text \<open>\<^verbatim>\<open>(?:Patient\s)?Name\s*:\s*([^\n]+)\<close>\<close>

definition name_rx :: rx where
  "name_rx = seqs [Opt (seqs [str ''Patient'', ws]), str ''Name'', Star ws, Lit CHR '':'',
     Star ws, rest_of_line]"

text \<open>\<^verbatim>\<open>Age\s*:\s*(\d+)\<close>\<close>

definition age_rx :: rx where
  "age_rx = seqs [str ''Age'', Star ws, Lit CHR '':'', Star ws, Grp 1 (Plus (In [Digit]))]"

text \<open>\<^verbatim>\<open>(?:Insurance|Patient|Record)?\s*ID\s*[:\s]*([A-Z0-9-]+)\<close>\<close>

definition patient_id_rx :: rx where
  "patient_id_rx = seqs [Opt (alts [''Insurance'', ''Patient'', ''Record'']), Star ws,
     str ''ID'', Star ws, Star (In [Ch CHR '':'', Space]),
     Grp 1 (Plus (In [Rng CHR ''A'' CHR ''Z'', Rng CHR ''0'' CHR ''9'', Ch CHR ''-'']))]"

text \<open>\<^verbatim>\<open>(?:Disease|Diagnosis)\s*(?:Name)?\s*:\s*([^\n]+)\<close>\<close>

definition disease_rx :: rx where
  "disease_rx = seqs [alts [''Disease'', ''Diagnosis''], Star ws, Opt (str ''Name''), Star ws,
     Lit CHR '':'', Star ws, rest_of_line]"

text \<open>\<^verbatim>\<open>Gender\s*:\s*([^\n]+)\<close>\<close>

definition gender_rx :: rx where
  "gender_rx = seqs [str ''Gender'', Star ws, Lit CHR '':'', Star ws, rest_of_line]"

text \<open>\<^verbatim>\<open>Blood(?:\sGroup)?\s*:\s*([^\n]+)\<close>\<close>

definition blood_rx :: rx where
  "blood_rx = seqs [str ''Blood'', Opt (seqs [ws, str ''Group'']), Star ws, Lit CHR '':'',
     Star ws, rest_of_line]"

text \<open>\<^verbatim>\<open>Address\s*:\s*([\s\S]+?)(?=\n(?:Phone|Contact|Gender|Blood|Medication)|$)\<close>\<close>

definition address_rx :: rx where
  "address_rx = seqs [str ''Address'', Star ws, Lit CHR '':'', Star ws, any_lazy,
     Ahead (Alt (seqs [Lit CHR ''\<newline>'',
                       alts [''Phone'', ''Contact'', ''Gender'', ''Blood'', ''Medication'']])
                Dollar)]"

text \<open>\<^verbatim>\<open>(?:Phone|Contact)\s*(?:Number)?\s*:\s*([^\n]+)\<close>\<close>

definition phone_rx :: rx where
  "phone_rx = seqs [alts [''Phone'', ''Contact''], Star ws, Opt (str ''Number''), Star ws,
     Lit CHR '':'', Star ws, rest_of_line]"

text \<open>\<^verbatim>\<open>Medication[s]?\s*:\s*([\s\S]+?)(?=\n\n|\n[A-Z][a-z]+:|$) \<close>, with the space that
  ends the pattern in the source.\<close>

definition medicines_rx :: rx where
  "medicines_rx = seqs [str ''Medication'', Opt (In [Ch CHR ''s'']), Star ws, Lit CHR '':'',
     Star ws, any_lazy,
     Ahead (Alt (str ''\<newline>\<newline>'')
           (Alt (seqs [Lit CHR ''\<newline>'', In [Rng CHR ''A'' CHR ''Z''],
                       Plus (In [Rng CHR ''a'' CHR ''z'']), Lit CHR '':''])
                Dollar)),
     Lit CHR '' '']"

definition patterns :: "(string \<times> rx) list" where
  "patterns = [(''name'', name_rx), (''age'', age_rx), (''patient_id'', patient_id_rx),
     (''disease'', disease_rx), (''gender'', gender_rx), (''blood'', blood_rx),
     (''address'', address_rx), (''phone'', phone_rx), (''medicines'', medicines_rx)]"

section \<open>Errors\<close>

text \<open>
  An exception is its class and its text \<open>str(e)\<close>. \<open>LibraryError\<close> stands for the
  exceptions of the imaging, recognition and PDF libraries.
\<close>

datatype exn_class = FileNotFoundError | ValueError | RuntimeError | AttributeError | LibraryError

datatype exn = Exn (exn_type: exn_class) (exn_str: string)

text \<open>The decorator \<open>handle_errors\<close>: every exception of the wrapped function is raised
  again as a \<open>RuntimeError\<close> whose text names the function.\<close>

definition handle_errors :: "string \<Rightarrow> exn + 'a \<Rightarrow> exn + 'a" where
  "handle_errors func_name res = (case res of
      Inl e \<Rightarrow> Inl (Exn RuntimeError (''Error in '' @ func_name @ '': '' @ exn_str e))
    | Inr v \<Rightarrow> Inr v)"

section \<open>Field extraction\<close>

type_synonym fieldmap = "string \<rightharpoonup> string"

definition ws_plus :: rx where
  "ws_plus = Plus ws"

text \<open>The clean-up of a matched value: \<open>match.group(1).strip().replace('\n', ' ')\<close>, then
  \<open>re.sub(r'\s+', ' ', value)\<close>.\<close>

definition clean_value :: "string \<Rightarrow> string" where
  "clean_value v = re_sub ws_plus '' '' (replace (strip v) CHR ''\<newline>'' CHR '' '')"

text \<open>
  The body of the loop over the patterns, for one pattern. \<open>match.group(1)\<close> is \<open>None\<close>
  when group 1 took no part in the match, and \<open>None.strip()\<close> raises \<open>AttributeError\<close>.
\<close>

definition field_value :: "rx \<Rightarrow> string \<Rightarrow> exn + string" where
  "field_value pat text = (case search pat text of
      Some m \<Rightarrow> (case m 1 of
          None \<Rightarrow> Inl (Exn AttributeError ([CHR 0x27] @ ''NoneType'' @ [CHR 0x27] @
            '' object has no attribute '' @ [CHR 0x27] @ ''strip'' @ [CHR 0x27]))
        | Some v \<Rightarrow> Inr (clean_value v))
    | None \<Rightarrow> Inr ''Not found'')"

fun extract_loop :: "(string \<times> rx) list \<Rightarrow> string \<Rightarrow> fieldmap \<Rightarrow> exn + fieldmap" where
  "extract_loop [] text flds = Inr flds"
| "extract_loop ((key, pat) # ps) text flds = (case field_value pat text of
      Inl e \<Rightarrow> Inl e
    | Inr v \<Rightarrow> extract_loop ps text (flds(key \<mapsto> v)))"

definition extract_fields :: "string \<Rightarrow> exn + fieldmap" where
  "extract_fields text = extract_loop patterns text Map.empty"

section \<open>Text recovery\<close>

text \<open>
  What the libraries do is a parameter of the model. For an image type \<open>'img\<close>:
  \<open>path_exists\<close> is \<open>os.path.exists\<close>; \<open>image_verify\<close> is \<open>Image.open\<close> followed by
  \<open>verify\<close>, \<open>None\<close> when the image passes and the text of the exception otherwise;
  \<open>imread\<close> is \<open>cv2.imread\<close>, \<open>None\<close> when the image cannot be loaded;
  \<open>ocr_threshold\<close> is the deskewing, grey scale and thresholding of
  \<open>_process_image_for_ocr\<close> followed by the recognition of the thresholded image,
  \<open>ocr_gray\<close> the recognition of the grey-scale image; \<open>pdf_open\<close> is \<open>pdfplumber.open\<close>
  and gives the pages. A page has its digital text (\<open>page.extract_text()\<close>) and its
  rendering as an image (\<open>page.to_image(resolution=300)\<close>, converted for OpenCV).
\<close>

record 'img page =
  extract_text :: "string option"
  to_image :: "exn + 'img"

record 'img env =
  path_exists :: "string \<Rightarrow> bool"
  image_verify :: "string \<Rightarrow> string option"
  imread :: "string \<Rightarrow> 'img option"
  ocr_threshold :: "'img \<Rightarrow> exn + string"
  ocr_gray :: "'img \<Rightarrow> exn + string"
  pdf_open :: "string \<Rightarrow> exn + 'img page list"

definition process_image_for_ocr :: "'img env \<Rightarrow> 'img \<Rightarrow> exn + string" where
  "process_image_for_ocr env img = (case ocr_threshold env img of
      Inl e \<Rightarrow> Inl e
    | Inr t \<Rightarrow>
        let text = strip t in
        if text = [] then (case ocr_gray env img of Inl e \<Rightarrow> Inl e | Inr t' \<Rightarrow> Inr (strip t'))
        else Inr text)"

definition extract_text_from_image :: "'img env \<Rightarrow> string \<Rightarrow> exn + string" where
  "extract_text_from_image env image_path = handle_errors ''extract_text_from_image''
     (case imread env image_path of
        None \<Rightarrow> Inl (Exn ValueError (''Failed to load image from path: '' @ image_path))
      | Some img \<Rightarrow> process_image_for_ocr env img)"

text \<open>The first loop of \<open>extract_text_from_pdf\<close>: the digital text of the pages that have
  one.\<close>

fun text_parts :: "'img page list \<Rightarrow> string list" where
  "text_parts [] = []"
| "text_parts (p # ps) = (case extract_text p of
      None \<Rightarrow> text_parts ps
    | Some page_text \<Rightarrow> if page_text \<noteq> [] then page_text # text_parts ps else text_parts ps)"

text \<open>
  The second loop: each page is rendered and recognised, and the first exception ends
  the loop. The first component of the result lists the images that were handed to
  \<open>_process_image_for_ocr\<close>, in order.
\<close>

fun image_text_parts :: "'img env \<Rightarrow> 'img page list \<Rightarrow> 'img list \<times> (exn + string list)" where
  "image_text_parts env [] = ([], Inr [])"
| "image_text_parts env (p # ps) = (case to_image p of
      Inl e \<Rightarrow> ([], Inl e)
    | Inr cv_image \<Rightarrow> (case process_image_for_ocr env cv_image of
          Inl e \<Rightarrow> ([cv_image], Inl e)
        | Inr t \<Rightarrow> (case image_text_parts env ps of
              (imgs, Inl e) \<Rightarrow> (cv_image # imgs, Inl e)
            | (imgs, Inr ts) \<Rightarrow> (cv_image # imgs, Inr (t # ts)))))"

definition page_break :: string where
  "page_break = ''\<newline>\<newline>--- Page Break ---\<newline>\<newline>''"

definition pdf_body :: "'img env \<Rightarrow> string \<Rightarrow> 'img list \<times> (exn + string)" where
  "pdf_body env pdf_path = (case pdf_open env pdf_path of
      Inl e \<Rightarrow> ([], Inl e)
    | Inr pages \<Rightarrow>
        let full_text = strip (join ''\<newline>'' (text_parts pages)) in
        if full_text = [] then (case image_text_parts env pages of
            (imgs, Inl e) \<Rightarrow> (imgs, Inl e)
          | (imgs, Inr ts) \<Rightarrow> (imgs, Inr (join page_break ts)))
        else ([], Inr full_text))"

text \<open>\<open>ocr_trace\<close> lists the images on which \<open>extract_text_from_pdf\<close> runs the
  recognition; \<open>extract_text_from_pdf\<close> is what it returns or raises.\<close>

definition ocr_trace :: "'img env \<Rightarrow> string \<Rightarrow> 'img list" where
  "ocr_trace env pdf_path = fst (pdf_body env pdf_path)"

definition extract_text_from_pdf :: "'img env \<Rightarrow> string \<Rightarrow> exn + string" where
  "extract_text_from_pdf env pdf_path =
     handle_errors ''extract_text_from_pdf'' (snd (pdf_body env pdf_path))"

section \<open>\<open>process_upload\<close>\<close>

definition image_types :: "string list" where
  "image_types = [''.png'', ''.jpg'', ''.jpeg'']"

text \<open>The text of the document, by file type; an image is verified first.\<close>

definition load_text :: "'img env \<Rightarrow> string \<Rightarrow> exn + string" where
  "load_text env file_path =
     (if endswith (lower file_path) image_types then
        (case image_verify env file_path of
           Some msg \<Rightarrow> Inl (Exn ValueError (''Invalid or corrupted image file: '' @ msg))
         | None \<Rightarrow> extract_text_from_image env file_path)
      else extract_text_from_pdf env file_path)"

definition process_upload_body :: "'img env \<Rightarrow> string \<Rightarrow> exn + fieldmap \<times> string" where
  "process_upload_body env file_path =
     (if \<not> path_exists env file_path then
        Inl (Exn FileNotFoundError (''The file was not found at: '' @ file_path))
      else if \<not> endswith (lower file_path) (image_types @ [''.pdf'']) then
        Inl (Exn ValueError ''Unsupported file format. Supported types: PDF, PNG, JPG, JPEG'')
      else (case load_text env file_path of
          Inl e \<Rightarrow> Inl e
        | Inr text \<Rightarrow>
            if strip text = [] then
              Inl (Exn ValueError ''No text could be extracted from the document.'')
            else (case extract_fields text of
                Inl e \<Rightarrow> Inl e
              | Inr flds \<Rightarrow>
                  if flds ''patient_id'' = Some ''Not found'' then
                    Inl (Exn ValueError
                      ''Could not find a valid Insurance ID, Patient ID, or Record ID in the document.'')
                  else Inr (flds, text))))"

definition process_upload :: "'img env \<Rightarrow> string \<Rightarrow> exn + fieldmap \<times> string" where
  "process_upload env file_path =
     handle_errors ''process_upload'' (process_upload_body env file_path)"

section \<open>Notions used in the statements\<close>

text \<open>What \<open>re.sub(r'\s+', ' ', s)\<close> computes, written as a recursion on the text: every
  maximal run of whitespace becomes one space.\<close>

function collapse :: "string \<Rightarrow> string" where
  "collapse [] = []"
| "collapse (c # cs) =
     (if isspace c then CHR '' '' # collapse (dropWhile isspace cs) else c # collapse cs)"
  by pat_completeness auto
termination
  by (relation "measure length") (auto simp: less_Suc_eq_le length_dropWhile_le)

text \<open>A text is trimmed when it neither starts nor ends with whitespace, and single-spaced
  when no two whitespace characters are adjacent.\<close>

definition trimmed :: "string \<Rightarrow> bool" where
  "trimmed s \<longleftrightarrow> s = [] \<or> (\<not> isspace (hd s) \<and> \<not> isspace (last s))"

fun single_spaced :: "string \<Rightarrow> bool" where
  "single_spaced (c # d # cs) = (\<not> (isspace c \<and> isspace d) \<and> single_spaced (d # cs))"
| "single_spaced cs = True"

text \<open>\<open>binds n r\<close>: every match of \<open>r\<close> captures group \<open>n\<close>.\<close>

fun binds :: "nat \<Rightarrow> rx \<Rightarrow> bool" where
  "binds n (Seq r1 r2) = (binds n r1 \<or> binds n r2)"
| "binds n (Alt r1 r2) = (binds n r1 \<and> binds n r2)"
| "binds n (Grp m r) = (m = n \<or> binds n r)"
| "binds n r = False"

text \<open>
  \<open>field_of pat text\<close> is the value the loop stores for a pattern: the sentinel when the
  pattern does not match, the cleaned group 1 when it does. (A match without group 1 makes
  the loop raise; \<open>field_value_binds\<close> shows that this does not happen for a pattern all of
  whose matches capture group 1, as the nine patterns do.)
\<close>

definition field_of :: "rx \<Rightarrow> string \<Rightarrow> string" where
  "field_of pat text = (case search pat text of
      None \<Rightarrow> ''Not found''
    | Some m \<Rightarrow> (case m 1 of None \<Rightarrow> [] | Some v \<Rightarrow> clean_value v))"

text \<open>
  Two environments for the concrete uploads below. In \<open>digital_env t\<close> every path except
  \<open>missing.pdf\<close> exists, the image \<open>broken.png\<close> fails verification, and every PDF has one
  page, with the digital text \<open>t\<close>. In \<open>scanned_env ts\<close> every PDF has one page without digital
  text for each element of \<open>ts\<close>; the rendering of a page is identified with the text the
  recognition finds on it.
\<close>

definition digital_env :: "string \<Rightarrow> unit env" where
  "digital_env t = \<lparr>path_exists = (\<lambda>p. p \<noteq> ''missing.pdf''),
     image_verify = (\<lambda>p. if p = ''broken.png'' then Some ''cannot identify image file'' else None),
     imread = (\<lambda>p. None),
     ocr_threshold = (\<lambda>i. Inr []),
     ocr_gray = (\<lambda>i. Inr []),
     pdf_open = (\<lambda>p. Inr [\<lparr>extract_text = Some t, to_image = Inr ()\<rparr>])\<rparr>"

definition scanned_env :: "string list \<Rightarrow> string env" where
  "scanned_env ts = \<lparr>path_exists = (\<lambda>p. True),
     image_verify = (\<lambda>p. None),
     imread = (\<lambda>p. None),
     ocr_threshold = (\<lambda>img. Inr img),
     ocr_gray = (\<lambda>img. Inr img),
     pdf_open = (\<lambda>p. Inr (map (\<lambda>t. \<lparr>extract_text = None, to_image = Inr t\<rparr>) ts))\<rparr>"

text \<open>\<open>s.startswith(p)\<close>, and the number of positions of a text at which a word occurs.\<close>

fun startswith :: "string \<Rightarrow> string \<Rightarrow> bool" where
  "startswith s [] = True"
| "startswith [] (p # ps) = False"
| "startswith (c # cs) (p # ps) = (c = p \<and> startswith cs ps)"

fun occurrences :: "string \<Rightarrow> string \<Rightarrow> nat" where
  "occurrences w [] = (if w = [] then 1 else 0)"
| "occurrences w (c # cs) = (if startswith (c # cs) w then 1 else 0) + occurrences w cs"

section \<open>Evaluation\<close>

lemmas rx_defs = Opt_def Plus_def MinPlus_def seqs_def str_def alts_def ws_def
  rest_of_line_def any_lazy_def ws_plus_def

lemmas char_defs = isspace_def lower_char_def upper_char_def ascii_uppercase_def
  ascii_lowercase_def

lemma lower_char_idem: "lower_char (lower_char c) = lower_char c"
  by (simp add: lower_char_def ascii_uppercase_def ascii_lowercase_def)

section \<open>The matcher\<close>

lemma ms_Star_elem:
  "(s', g') \<in> set (ms (Star r) s g) \<longleftrightarrow> (s', g') = (s, g) \<or>
     (\<exists>s1 g1. (s1, g1) \<in> set (ms r s g) \<and> length s1 < length s \<and> (s', g') \<in> set (ms (Star r) s1 g1))"
  by (subst ms.simps) (auto simp del: ms.simps split: if_splits)

lemma ms_MinStar_elem:
  "(s', g') \<in> set (ms (MinStar r) s g) \<longleftrightarrow> (s', g') = (s, g) \<or>
     (\<exists>s1 g1. (s1, g1) \<in> set (ms r s g) \<and> length s1 < length s \<and> (s', g') \<in> set (ms (MinStar r) s1 g1))"
  by (subst ms.simps) (auto simp del: ms.simps split: if_splits)

lemma ms_Seq_elem:
  "(s', g') \<in> set (ms (Seq r1 r2) s g) \<longleftrightarrow>
     (\<exists>s1 g1. (s1, g1) \<in> set (ms r1 s g) \<and> (s', g') \<in> set (ms r2 s1 g1))"
  by (subst ms.simps) (auto simp del: ms.simps)

lemma ms_length_le: "(s', g') \<in> set (ms r s g) \<Longrightarrow> length s' \<le> length s"
proof (induction r s g arbitrary: s' g' rule: ms.induct)
  case (5 r1 r2 s g)
  from 5(3) obtain s1 g1 where 1: "(s1, g1) \<in> set (ms r1 s g)"
    and 2: "(s', g') \<in> set (ms r2 s1 g1)" unfolding ms_Seq_elem by blast
  from 5(1)[OF 1] 5(2)[OF 1 refl 2] show ?case by simp
next
  case (7 r s g)
  from 7(3) consider "(s', g') = (s, g)" | s1 g1 where "(s1, g1) \<in> set (ms r s g)"
      "length s1 < length s" "(s', g') \<in> set (ms (Star r) s1 g1)"
    unfolding ms_Star_elem[of s' g' r s g] by blast
  then show ?case
  proof cases
    case 1
    then show ?thesis by simp
  next
    case 2
    from 7(2)[OF 2(1) refl 2(2) 2(3)] 2(2) show ?thesis by simp
  qed
next
  case (8 r s g)
  from 8(3) consider "(s', g') = (s, g)" | s1 g1 where "(s1, g1) \<in> set (ms r s g)"
      "length s1 < length s" "(s', g') \<in> set (ms (MinStar r) s1 g1)"
    unfolding ms_MinStar_elem[of s' g' r s g] by blast
  then show ?case
  proof cases
    case 1
    then show ?thesis by simp
  next
    case 2
    from 8(2)[OF 2(1) refl 2(2) 2(3)] 2(2) show ?thesis by simp
  qed
next
  case (9 n r s g)
  then show ?case by auto
next
  case (10 r s g)
  then show ?case by (auto split: list.splits)
next
  case (6 r1 r2 s g)
  then show ?case by auto
qed (auto split: list.splits if_splits)

lemma ms_keeps: "(s', g') \<in> set (ms r s g) \<Longrightarrow> g n \<noteq> None \<Longrightarrow> g' n \<noteq> None"
proof (induction r s g arbitrary: s' g' rule: ms.induct)
  case (5 r1 r2 s g)
  from 5(3) obtain s1 g1 where 1: "(s1, g1) \<in> set (ms r1 s g)"
    and 2: "(s', g') \<in> set (ms r2 s1 g1)" unfolding ms_Seq_elem by blast
  from 5(1)[OF 1 5(4)] have "g1 n \<noteq> None" .
  from 5(2)[OF 1 refl 2 this] show ?case .
next
  case (7 r s g)
  from 7(3) consider "(s', g') = (s, g)" | s1 g1 where "(s1, g1) \<in> set (ms r s g)"
      "length s1 < length s" "(s', g') \<in> set (ms (Star r) s1 g1)"
    unfolding ms_Star_elem[of s' g' r s g] by blast
  then show ?case
  proof cases
    case 1
    with 7(4) show ?thesis by simp
  next
    case 2
    from 7(1)[OF 2(1) 7(4)] have "g1 n \<noteq> None" .
    from 7(2)[OF 2(1) refl 2(2) 2(3) this] show ?thesis .
  qed
next
  case (8 r s g)
  from 8(3) consider "(s', g') = (s, g)" | s1 g1 where "(s1, g1) \<in> set (ms r s g)"
      "length s1 < length s" "(s', g') \<in> set (ms (MinStar r) s1 g1)"
    unfolding ms_MinStar_elem[of s' g' r s g] by blast
  then show ?case
  proof cases
    case 1
    with 8(4) show ?thesis by simp
  next
    case 2
    from 8(1)[OF 2(1) 8(4)] have "g1 n \<noteq> None" .
    from 8(2)[OF 2(1) refl 2(2) 2(3) this] show ?thesis .
  qed
next
  case (9 m r s g)
  then show ?case by auto
next
  case (10 r s g)
  from 10(2) obtain s1 xs where "ms r s g = (s1, g') # xs"
    by (cases "ms r s g") auto
  then have "(s1, g') \<in> set (ms r s g)" by simp
  from 10(1)[OF this 10(3)] show ?case .
next
  case (6 r1 r2 s g)
  then show ?case by auto
qed (auto split: list.splits if_splits)

lemma ms_binds: "binds n r \<Longrightarrow> (s', g') \<in> set (ms r s g) \<Longrightarrow> g' n \<noteq> None"
proof (induction r arbitrary: s g s' g')
  case (Seq r1 r2)
  from Seq.prems(2) obtain s1 g1 where 1: "(s1, g1) \<in> set (ms r1 s g)"
    and 2: "(s', g') \<in> set (ms r2 s1 g1)" unfolding ms_Seq_elem by blast
  show ?case
  proof (cases "binds n r1")
    case True
    with Seq.IH(1) 1 have "g1 n \<noteq> None" by blast
    with 2 show ?thesis by (rule ms_keeps)
  next
    case False
    with Seq.prems(1) have "binds n r2" by simp
    with Seq.IH(2) 2 show ?thesis by blast
  qed
next
  case (Alt r1 r2)
  then show ?case by auto
next
  case (Grp m r)
  then show ?case by (cases "m = n") auto
qed (simp_all del: ms.simps)

lemma search_binds: "binds n r \<Longrightarrow> search r s = Some g \<Longrightarrow> g n \<noteq> None"
proof (induction s)
  case Nil
  show ?case
  proof (cases "ms r [] Map.empty")
    case Nil
    with \<open>search r [] = Some g\<close> show ?thesis by simp
  next
    case (Cons x xs)
    obtain s' g' where x: "x = (s', g')" by (cases x)
    with Cons have "(s', g') \<in> set (ms r [] Map.empty)" by simp
    with \<open>binds n r\<close> have "g' n \<noteq> None" by (rule ms_binds)
    with Cons x \<open>search r [] = Some g\<close> show ?thesis by simp
  qed
next
  case (Cons c cs)
  show ?case
  proof (cases "ms r (c # cs) Map.empty")
    case Nil
    with Cons show ?thesis by simp
  next
    case (Cons x xs)
    obtain s' g' where x: "x = (s', g')" by (cases x)
    with Cons have "(s', g') \<in> set (ms r (c # cs) Map.empty)" by simp
    with \<open>binds n r\<close> have "g' n \<noteq> None" by (rule ms_binds)
    with Cons x \<open>search r (c # cs) = Some g\<close> show ?thesis by simp
  qed
qed

lemma patterns_bind: "\<forall>(k, r) \<in> set patterns. binds 1 r"
  by (simp add: patterns_def name_rx_def age_rx_def patient_id_rx_def disease_rx_def
      gender_rx_def blood_rx_def address_rx_def phone_rx_def medicines_rx_def rx_defs)

text \<open>\<open>\s+\<close> matches no empty text, as \<open>re_sub\<close> assumes.\<close>

lemma ms_ws_plus_shorter: "(s', g') \<in> set (ms ws_plus s g) \<Longrightarrow> length s' < length s"
proof -
  assume "(s', g') \<in> set (ms ws_plus s g)"
  then obtain s1 g1 where 1: "(s1, g1) \<in> set (ms ws s g)" and 2: "(s', g') \<in> set (ms (Star ws) s1 g1)"
    unfolding ws_plus_def Plus_def ms_Seq_elem by blast
  from 1 have "length s1 < length s" by (cases s) (auto simp: ws_def split: if_splits)
  with ms_length_le[OF 2] show ?thesis by simp
qed

section \<open>Whitespace clean-up\<close>

lemma ms_star_in:
  "\<exists>xs. ms (Star (In its)) s g = (dropWhile (\<lambda>c. \<exists>i \<in> set its. in_item i c) s, g) # xs"
proof (induction s)
  case Nil
  show ?case by simp
next
  case (Cons c t)
  then obtain xs where "ms (Star (In its)) t g = (dropWhile (\<lambda>c. \<exists>i \<in> set its. in_item i c) t, g) # xs"
    by blast
  then show ?case by simp
qed

lemma ms_ws_plus_space:
  assumes "isspace c"
  shows "\<exists>xs. ms ws_plus (c # t) g = (dropWhile isspace t, g) # xs"
proof -
  obtain xs where "ms (Star (In [Space])) t g = (dropWhile (\<lambda>c. \<exists>i \<in> set [Space]. in_item i c) t, g) # xs"
    using ms_star_in by blast
  with assms show ?thesis by (simp add: ws_plus_def Plus_def ws_def)
qed

lemma ms_ws_plus_nonspace: "\<not> isspace c \<Longrightarrow> ms ws_plus (c # t) g = []"
  by (simp add: ws_plus_def Plus_def ws_def)

lemma re_sub_ws_plus: "re_sub ws_plus '' '' s = collapse s"
proof (induction s rule: collapse.induct)
  case 1
  show ?case by simp
next
  case (2 c cs)
  show ?case
  proof (cases "isspace c")
    case True
    then obtain xs where "ms ws_plus (c # cs) Map.empty = (dropWhile isspace cs, Map.empty) # xs"
      using ms_ws_plus_space by blast
    with True 2 show ?thesis by (simp add: less_Suc_eq_le length_dropWhile_le)
  next
    case False
    with 2 show ?thesis by (simp add: ms_ws_plus_nonspace)
  qed
qed

lemma collapse_space_only: "c \<in> set (collapse s) \<Longrightarrow> isspace c \<Longrightarrow> c = CHR '' ''"
  by (induction s rule: collapse.induct) (auto split: if_splits)

lemma collapse_nonempty: "s \<noteq> [] \<Longrightarrow> collapse s \<noteq> []"
  by (cases s) auto

lemma dropWhile_hd: "dropWhile P s = [] \<or> \<not> P (hd (dropWhile P s))"
  by (metis hd_dropWhile)

lemma collapse_hd:
  "s = [] \<or> \<not> isspace (hd s) \<Longrightarrow> collapse s = [] \<or> \<not> isspace (hd (collapse s))"
  by (cases s) auto

lemma dropWhile_collapse:
  "s = [] \<or> \<not> isspace (hd s) \<Longrightarrow> dropWhile isspace (collapse s) = collapse s"
  by (cases s) auto

lemma collapse_idem: "collapse (collapse s) = collapse s"
proof (induction s rule: collapse.induct)
  case 1
  show ?case by simp
next
  case (2 c cs)
  show ?case
  proof (cases "isspace c")
    case True
    have sp: "isspace CHR '' ''" by (simp add: isspace_def)
    have "dropWhile isspace (collapse (dropWhile isspace cs)) = collapse (dropWhile isspace cs)"
      by (rule dropWhile_collapse) (rule dropWhile_hd)
    with True 2 sp show ?thesis by simp
  next
    case False
    with 2 show ?thesis by simp
  qed
qed

lemma collapse_last:
  "s = [] \<or> \<not> isspace (last s) \<Longrightarrow> collapse s = [] \<or> \<not> isspace (last (collapse s))"
proof (induction s rule: collapse.induct)
  case 1
  show ?case by simp
next
  case (2 c cs)
  show ?case
  proof (cases "isspace c")
    case True
    with 2(3) have ne: "cs \<noteq> []" and l: "\<not> isspace (last cs)"
      by (auto split: if_splits)
    then have d: "dropWhile isspace cs \<noteq> []"
      by (metis dropWhile_eq_Nil_conv last_in_set)
    have "last (dropWhile isspace cs) = last cs"
      using d by (metis append_Nil2 last_appendR takeWhile_dropWhile_id)
    with 2(1)[OF True] l d have "collapse (dropWhile isspace cs) = [] \<or> \<not> isspace (last (collapse (dropWhile isspace cs)))"
      by simp
    with True d collapse_nonempty[OF d] show ?thesis by simp
  next
    case False
    show ?thesis
    proof (cases cs)
      case Nil
      with False show ?thesis by simp
    next
      case (Cons d ds)
      with 2(3) have "cs = [] \<or> \<not> isspace (last cs)" by simp
      with 2(2)[OF False] have "collapse cs = [] \<or> \<not> isspace (last (collapse cs))" by simp
      with False Cons collapse_nonempty[of cs] show ?thesis by simp
    qed
  qed
qed

lemma trimmed_strip: "trimmed (strip v)"
proof -
  define a where "a = dropWhile isspace v"
  define b where "b = dropWhile isspace (rev a)"
  have sv: "strip v = rev b" by (simp add: strip_def a_def b_def)
  show ?thesis
  proof (cases "b = []")
    case True
    with sv show ?thesis by (simp add: trimmed_def)
  next
    case False
    have hb: "\<not> isspace (hd b)"
      using False hd_dropWhile[of isspace "rev a"] unfolding b_def by blast
    have "rev a = takeWhile isspace (rev a) @ b" by (simp add: b_def)
    then have "last (rev a) = last b" using False by (metis last_appendR)
    moreover have ane: "a \<noteq> []" using False by (auto simp: b_def)
    ultimately have "last b = hd a" by (simp add: last_rev)
    moreover have "\<not> isspace (hd a)"
      using ane hd_dropWhile[of isspace v] unfolding a_def by blast
    ultimately have "\<not> isspace (last b)" by simp
    with hb False sv show ?thesis by (simp add: trimmed_def hd_rev last_rev)
  qed
qed

lemma strip_trimmed: "trimmed s \<Longrightarrow> strip s = s"
proof (cases "s = []")
  case True
  then show ?thesis by (simp add: strip_def)
next
  case False
  assume "trimmed s"
  with False have h: "\<not> isspace (hd s)" and l: "\<not> isspace (last s)" by (auto simp: trimmed_def)
  from False h have 1: "dropWhile isspace s = s" by (cases s) auto
  from False l have 2: "dropWhile isspace (rev s) = rev s" by (cases "rev s") (auto simp: last_rev hd_rev[symmetric])
  show ?thesis by (simp add: strip_def 1 2)
qed

lemma newline_space: "isspace CHR ''\<newline>''"
  by (simp add: isspace_def)

lemma trimmed_replace: "trimmed s \<Longrightarrow> trimmed (replace s CHR ''\<newline>'' CHR '' '')"
  using newline_space by (cases "s = []") (auto simp: trimmed_def replace_def hd_map last_map)

lemma trimmed_collapse: "trimmed s \<Longrightarrow> trimmed (collapse s)"
  using collapse_last[of s] collapse_hd[of s] by (auto simp: trimmed_def)

lemma newline_notin_collapse: "CHR ''\<newline>'' \<notin> set (collapse s)"
  using collapse_space_only[of "CHR ''\<newline>''" s] newline_space by auto

lemma replace_absent: "a \<notin> set s \<Longrightarrow> replace s a b = s"
  by (induction s) (auto simp: replace_def)

lemma single_spaced_collapse: "single_spaced (collapse s)"
proof (induction s rule: collapse.induct)
  case 1
  show ?case by simp
next
  case (2 c cs)
  show ?case
  proof (cases "isspace c")
    case True
    define t where "t = dropWhile isspace cs"
    have ih: "single_spaced (collapse t)" using 2(1)[OF True] by (simp add: t_def)
    have "t = [] \<or> \<not> isspace (hd t)" unfolding t_def by (rule dropWhile_hd)
    then have "collapse t = [] \<or> \<not> isspace (hd (collapse t))"
      by (rule collapse_hd)
    with ih have "single_spaced (CHR '' '' # collapse t)"
      by (cases "collapse t") auto
    with True show ?thesis by (simp add: t_def)
  next
    case False
    with 2(2) have "single_spaced (collapse cs)" by simp
    with False show ?thesis by (cases "collapse cs") auto
  qed
qed

lemma clean_value_collapse: "clean_value v = collapse (replace (strip v) CHR ''\<newline>'' CHR '' '')"
  by (simp add: clean_value_def re_sub_ws_plus)

lemma trimmed_clean_value: "trimmed (clean_value v)"
  by (simp add: clean_value_collapse trimmed_collapse trimmed_replace trimmed_strip)

text \<open>
  C9. The clean-up of a matched value (trimming, newlines replaced by spaces, runs of
  whitespace replaced by one space) is idempotent: cleaning a cleaned value returns it
  unchanged.
\<close>

theorem clean_value_idempotent: "clean_value (clean_value v) = clean_value v"
proof -
  define w where "w = clean_value v"
  have w: "w = collapse (replace (strip v) CHR ''\<newline>'' CHR '' '')"
    by (simp add: w_def clean_value_collapse)
  have 1: "strip w = w" using trimmed_clean_value[of v] by (simp add: w_def strip_trimmed)
  have 2: "replace w CHR ''\<newline>'' CHR '' '' = w"
    by (simp add: w replace_absent newline_notin_collapse)
  have 3: "collapse w = w" by (simp add: w collapse_idem)
  have "clean_value w = w" by (simp add: clean_value_collapse 1 2 3)
  then show ?thesis by (simp add: w_def)
qed

section \<open>Field extraction never raises\<close>

lemmas pattern_defs = name_rx_def age_rx_def patient_id_rx_def disease_rx_def
  gender_rx_def blood_rx_def address_rx_def phone_rx_def medicines_rx_def

lemma field_value_binds: "binds 1 r \<Longrightarrow> field_value r text = Inr (field_of r text)"
  by (auto simp: field_value_def field_of_def split: option.splits dest: search_binds)

lemma binds_patterns:
  "binds 1 name_rx" "binds 1 age_rx" "binds 1 patient_id_rx" "binds 1 disease_rx"
  "binds 1 gender_rx" "binds 1 blood_rx" "binds 1 address_rx" "binds 1 phone_rx"
  "binds 1 medicines_rx"
  by (simp_all add: pattern_defs rx_defs)

lemma extract_fields_eq:
  "extract_fields text = Inr [''name'' \<mapsto> field_of name_rx text, ''age'' \<mapsto> field_of age_rx text,
     ''patient_id'' \<mapsto> field_of patient_id_rx text, ''disease'' \<mapsto> field_of disease_rx text,
     ''gender'' \<mapsto> field_of gender_rx text, ''blood'' \<mapsto> field_of blood_rx text,
     ''address'' \<mapsto> field_of address_rx text, ''phone'' \<mapsto> field_of phone_rx text,
     ''medicines'' \<mapsto> field_of medicines_rx text]"
  by (simp add: extract_fields_def patterns_def binds_patterns[THEN field_value_binds])

lemmas ev = pattern_defs rx_defs char_defs field_of_def clean_value_collapse strip_def replace_def

section \<open>The medicines pattern matches no text\<close>

text \<open>
  After the lookahead \<^verbatim>\<open>(?=\n\n|\n[A-Z][a-z]+:|$)\<close> the pattern requires a space. Where the
  lookahead holds, the next character is a newline or the text has ended, so the space
  cannot match and every attempt fails.
\<close>

lemma concat_map_Nil: "(\<And>x. x \<in> set xs \<Longrightarrow> f x = []) \<Longrightarrow> concat (map f xs) = []"
  by (induction xs) auto

lemma ms_Seq_fail: "(\<And>s g. ms r2 s g = []) \<Longrightarrow> ms (Seq r1 r2) s g = []"
  by (simp add: concat_map_Nil split_def)

lemma lower_char_space: "lower_char c = CHR '' '' \<longleftrightarrow> c = CHR '' ''"
  by (auto simp: lower_char_def ascii_uppercase_def ascii_lowercase_def)

lemma ms_seqs_fail:
  "(\<And>s g. ms (seqs rs2) s g = []) \<Longrightarrow> ms (seqs (rs1 @ rs2)) s g = []"
proof (induction rs1 arbitrary: s g)
  case Nil
  then show ?case by simp
next
  case (Cons r rs1)
  have "ms (Seq r (seqs (rs1 @ rs2))) s g = []"
    by (rule ms_Seq_fail) (rule Cons.IH, rule Cons.prems)
  then show ?case by (simp add: seqs_def)
qed

lemma medicines_tail:
  "ms (seqs [Ahead (Alt (str ''\<newline>\<newline>'')
           (Alt (seqs [Lit CHR ''\<newline>'', In [Rng CHR ''A'' CHR ''Z''],
                       Plus (In [Rng CHR ''a'' CHR ''z'']), Lit CHR '':''])
                Dollar)), Lit CHR '' '']) s g = []"
proof (cases s)
  case Nil
  then show ?thesis by (simp add: rx_defs char_defs)
next
  case (Cons c t)
  show ?thesis
  proof (cases "c = CHR '' ''")
    case True
    with Cons show ?thesis by (simp add: rx_defs char_defs)
  next
    case False
    then have "lower_char c \<noteq> lower_char CHR '' ''"
      using lower_char_space[of c] lower_char_space[of "CHR '' ''"] by simp
    then have "ms (Seq (Lit CHR '' '') Eps) (c # t) g' = []" for g'
      by simp
    with Cons show ?thesis
      by (simp del: ms.simps add: seqs_def ms.simps(5)[of "Ahead _"] ms.simps(10)
          split: list.splits)
  qed
qed

lemma medicines_no_match: "ms medicines_rx s g = []"
proof -
  have eq: "medicines_rx = seqs ([str ''Medication'', Opt (In [Ch CHR ''s'']), Star ws, Lit CHR '':'',
     Star ws, any_lazy] @
     [Ahead (Alt (str ''\<newline>\<newline>'')
           (Alt (seqs [Lit CHR ''\<newline>'', In [Rng CHR ''A'' CHR ''Z''],
                       Plus (In [Rng CHR ''a'' CHR ''z'']), Lit CHR '':''])
                Dollar)), Lit CHR '' ''])"
    by (simp add: medicines_rx_def)
  show ?thesis by (subst eq) (rule ms_seqs_fail, rule medicines_tail)
qed

lemma search_medicines: "search medicines_rx text = None"
  by (induction "text") (simp_all add: medicines_no_match)

lemma medicines_not_found: "field_of medicines_rx text = ''Not found''"
  by (simp add: field_of_def search_medicines)

section \<open>Uploads\<close>

lemmas upload_defs = process_upload_def process_upload_body_def load_text_def
  extract_text_from_pdf_def extract_text_from_image_def pdf_body_def handle_errors_def
  endswith_def lower_def image_types_def process_image_for_ocr_def page_break_def Let_def

lemmas env_defs = digital_env_def scanned_env_def

lemmas upload_ev = upload_defs env_defs extract_fields_eq strip_def char_defs

text \<open>
  C10. A text with no identifier label can still get a patient identifier: the text
  \<open>Diagnosis: COVID 19\<close> contains none of \<open>Insurance ID\<close>, \<open>Patient ID\<close>, \<open>Record ID\<close>
  and \<open>ID:\<close> in any case, and \<open>process_upload\<close> on a PDF with this digital text
  succeeds with \<open>patient_id\<close> equal to \<open>19\<close>: the pattern finds the letters \<open>ID\<close> at the
  end of \<open>COVID\<close>, and the colon is optional.
\<close>

theorem covid_identifier:
  "occurrences ''insurance id'' (lower ''Diagnosis: COVID 19'') = 0 \<and>
   occurrences ''patient id'' (lower ''Diagnosis: COVID 19'') = 0 \<and>
   occurrences ''record id'' (lower ''Diagnosis: COVID 19'') = 0 \<and>
   occurrences ''id:'' (lower ''Diagnosis: COVID 19'') = 0 \<and>
   (case process_upload (digital_env ''Diagnosis: COVID 19'') ''report.pdf'' of
      Inl e \<Rightarrow> False
    | Inr (flds, t) \<Rightarrow> t = ''Diagnosis: COVID 19'' \<and> flds ''patient_id'' = Some ''19'')"
proof -
  have 1: "field_of patient_id_rx ''Diagnosis: COVID 19'' = ''19''"
    by (simp add: ev)
  have 2: "occurrences ''insurance id'' (lower ''Diagnosis: COVID 19'') = 0"
    "occurrences ''patient id'' (lower ''Diagnosis: COVID 19'') = 0"
    "occurrences ''record id'' (lower ''Diagnosis: COVID 19'') = 0"
    "occurrences ''id:'' (lower ''Diagnosis: COVID 19'') = 0"
    by (simp_all add: lower_def char_defs)
  show ?thesis by (simp add: 2) (simp add: upload_ev 1)
qed

text \<open>
  C3. The claim is that the medicines field of a text with a \<open>Medications:\<close> line and a
  list under it is the captured list. On the text below \<open>process_upload\<close> succeeds and the
  field is the sentinel \<open>Not found\<close>. The space that ends the pattern has to match right where
  the lookahead has just seen a newline or the end of the text, so the pattern matches no
  text at all (\<open>medicines_not_found\<close>).
\<close>

theorem medicines_failing_input:
  "(case process_upload
      (digital_env ''ID: A1\<newline>Medications:\<newline>Aspirin\<newline>Ibuprofen\<newline>\<newline>Name: Bob'')
      ''report.pdf'' of
      Inl e \<Rightarrow> False
    | Inr (flds, t) \<Rightarrow> flds ''medicines'' = Some ''Not found'')"
proof -
  have 1: "field_of patient_id_rx
      ''ID: A1\<newline>Medications:\<newline>Aspirin\<newline>Ibuprofen\<newline>\<newline>Name: Bob'' = ''A1''"
    by (simp add: ev)
  show ?thesis by (simp add: upload_ev 1 medicines_not_found)
qed

text \<open>
  C8. The claim is that the address stops before the next line that starts with a field
  label. On the text below the line \<open>Disease: Flu\<close> follows the address, and the address
  field is \<open>12 Main St Disease: Flu\<close>: the lookahead of the address pattern lists only
  \<open>Phone\<close>, \<open>Contact\<close>, \<open>Gender\<close>, \<open>Blood\<close> and \<open>Medication\<close>.
\<close>

theorem address_failing_input:
  "(case process_upload
      (digital_env ''ID: A1\<newline>Address: 12 Main St\<newline>Disease: Flu'')
      ''report.pdf'' of
      Inl e \<Rightarrow> False
    | Inr (flds, t) \<Rightarrow> flds ''address'' = Some ''12 Main St Disease: Flu'')"
proof -
  have 1: "field_of patient_id_rx ''ID: A1\<newline>Address: 12 Main St\<newline>Disease: Flu'' = ''A1''"
    by (simp add: ev)
  have 2: "field_of address_rx ''ID: A1\<newline>Address: 12 Main St\<newline>Disease: Flu'' =
      ''12 Main St Disease: Flu''"
    by (simp add: ev)
  show ?thesis by (simp add: upload_ev 1 2)
qed

text \<open>
  C2, as stated, fails: a text may contain the line \<open>Patient ID: ABC-123\<close> after another
  place where the identifier pattern matches; \<open>re.search\<close> returns the leftmost match.
\<close>

theorem earlier_identifier_wins:
  "(case extract_fields ''Insurance ID: XY-9\<newline>Patient ID: ABC-123'' of
      Inl e \<Rightarrow> None
    | Inr flds \<Rightarrow> flds ''patient_id'') = Some ''XY-9''"
proof -
  have 1: "field_of patient_id_rx ''Insurance ID: XY-9\<newline>Patient ID: ABC-123'' = ''XY-9''"
    by (simp add: ev)
  show ?thesis by (simp add: extract_fields_eq 1)
qed

text \<open>
  C1. When the file exists, its extension is supported, its text is recovered and is not
  empty after trimming, and the extracted \<open>patient_id\<close> is the sentinel, \<open>process_upload\<close>
  fails with the missing-identifier error, whatever the other fields are. The error
  reaches the caller as the \<open>RuntimeError\<close> of \<open>handle_errors\<close>.
\<close>

theorem missing_identifier:
  assumes "path_exists env file_path"
    and "endswith (lower file_path) (image_types @ [''.pdf''])"
    and "load_text env file_path = Inr text"
    and "strip text \<noteq> []"
    and "extract_fields text = Inr flds"
    and "flds ''patient_id'' = Some ''Not found''"
  shows "process_upload env file_path = Inl (Exn RuntimeError
    ''Error in process_upload: Could not find a valid Insurance ID, Patient ID, or Record ID in the document.'')"
  using assms by (simp add: process_upload_def process_upload_body_def handle_errors_def)

text \<open>
  The text \<open>Name: Bob\<close> has a name and no identifier.
\<close>

theorem missing_identifier_witness:
  "process_upload (digital_env ''Name: Bob'') ''report.pdf'' = Inl (Exn RuntimeError
    ''Error in process_upload: Could not find a valid Insurance ID, Patient ID, or Record ID in the document.'')
   \<and> (case extract_fields ''Name: Bob'' of Inl e \<Rightarrow> None | Inr flds \<Rightarrow> flds ''name'') = Some ''Bob''"
proof -
  let ?F = "[''name'' \<mapsto> field_of name_rx ''Name: Bob'', ''age'' \<mapsto> field_of age_rx ''Name: Bob'',
     ''patient_id'' \<mapsto> field_of patient_id_rx ''Name: Bob'', ''disease'' \<mapsto> field_of disease_rx ''Name: Bob'',
     ''gender'' \<mapsto> field_of gender_rx ''Name: Bob'', ''blood'' \<mapsto> field_of blood_rx ''Name: Bob'',
     ''address'' \<mapsto> field_of address_rx ''Name: Bob'', ''phone'' \<mapsto> field_of phone_rx ''Name: Bob'',
     ''medicines'' \<mapsto> field_of medicines_rx ''Name: Bob'']"
  have 1: "path_exists (digital_env ''Name: Bob'') ''report.pdf''"
    by (simp add: env_defs)
  have 2: "endswith (lower ''report.pdf'') (image_types @ [''.pdf''])"
    by (simp add: endswith_def lower_def image_types_def char_defs)
  have 3: "load_text (digital_env ''Name: Bob'') ''report.pdf'' = Inr ''Name: Bob''"
    by (simp add: upload_defs env_defs strip_def char_defs)
  have 4: "strip ''Name: Bob'' \<noteq> []"
    by (simp add: strip_def char_defs)
  have 5: "extract_fields ''Name: Bob'' = Inr ?F"
    by (rule extract_fields_eq)
  have 6: "?F ''patient_id'' = Some ''Not found''"
    by (simp add: ev)
  have 7: "?F ''name'' = Some ''Bob''"
    by (simp add: ev)
  from missing_identifier[OF 1 2 3 4 5 6] 5 7 show ?thesis by simp
qed

text \<open>
  C5. When the recovered text is empty after trimming, \<open>process_upload\<close> fails with the
  error for an unreadable document and returns no field map; the patterns are not
  consulted, the result does not depend on them.
\<close>

theorem empty_text_rejected:
  assumes "path_exists env file_path"
    and "endswith (lower file_path) (image_types @ [''.pdf''])"
    and "load_text env file_path = Inr text"
    and "strip text = []"
  shows "process_upload env file_path = Inl (Exn RuntimeError
    ''Error in process_upload: No text could be extracted from the document.'')"
  using assms by (simp add: process_upload_def process_upload_body_def handle_errors_def)

text \<open>
  A scanned page on which the recognition finds only whitespace.
\<close>

theorem empty_text_rejected_witness:
  "process_upload (scanned_env ['' \<newline>'']) ''scan.pdf'' = Inl (Exn RuntimeError
    ''Error in process_upload: No text could be extracted from the document.'')"
proof -
  have 1: "path_exists (scanned_env ['' \<newline>'']) ''scan.pdf''"
    by (simp add: env_defs)
  have 2: "endswith (lower ''scan.pdf'') (image_types @ [''.pdf''])"
    by (simp add: endswith_def lower_def image_types_def char_defs)
  have 3: "load_text (scanned_env ['' \<newline>'']) ''scan.pdf'' = Inr []"
    by (simp add: upload_defs env_defs strip_def char_defs)
  have 4: "strip [] = []"
    by (simp add: strip_def char_defs)
  from empty_text_rejected[OF 1 2 3 4] show ?thesis .
qed

section \<open>Text of a PDF\<close>

lemma startswith_append_newline:
  "CHR ''\<newline>'' \<notin> set w \<Longrightarrow> startswith (t @ CHR ''\<newline>'' # r) w = startswith t w"
proof (induction t arbitrary: w)
  case Nil
  then show ?case by (cases w) auto
next
  case (Cons c t)
  then show ?case by (cases w) auto
qed

lemma occurrences_append_newline:
  "w \<noteq> [] \<Longrightarrow> CHR ''\<newline>'' \<notin> set w \<Longrightarrow>
   occurrences w (t @ CHR ''\<newline>'' # r) = occurrences w t + occurrences w (CHR ''\<newline>'' # r)"
proof (induction t)
  case Nil
  then show ?case by simp
next
  case (Cons c t)
  have "startswith ((c # t) @ CHR ''\<newline>'' # r) w = startswith (c # t) w"
    using Cons.prems(2) by (rule startswith_append_newline)
  with Cons show ?case by simp
qed

lemma occurrences_page_break:
  "occurrences ''--- Page Break ---'' (page_break @ r) = Suc (occurrences ''--- Page Break ---'' r)"
  by (simp add: page_break_def)

lemma occurrences_join:
  "\<forall>t \<in> set ts. occurrences ''--- Page Break ---'' t = 0 \<Longrightarrow>
   occurrences ''--- Page Break ---'' (join page_break ts) = length ts - 1"
proof (induction page_break ts rule: join.induct)
  case 1
  show ?case by simp
next
  case (2 x)
  then show ?case by simp
next
  case (3 x y xs)
  have pb: "page_break @ join page_break (y # xs) =
      CHR ''\<newline>'' # (tl page_break @ join page_break (y # xs))"
    by (simp add: page_break_def)
  have "occurrences ''--- Page Break ---'' (x @ page_break @ join page_break (y # xs)) =
      occurrences ''--- Page Break ---'' x +
      occurrences ''--- Page Break ---'' (page_break @ join page_break (y # xs))"
    unfolding pb by (rule occurrences_append_newline) simp_all
  also have "\<dots> = Suc (occurrences ''--- Page Break ---'' (join page_break (y # xs)))"
    using 3(2) by (simp add: occurrences_page_break)
  also have "\<dots> = Suc (length (y # xs) - 1)"
    using 3 by simp
  finally show ?case by simp
qed

lemma image_text_parts_all:
  "map to_image pages = map Inr imgs \<Longrightarrow> map (process_image_for_ocr env) imgs = map Inr ts \<Longrightarrow>
   image_text_parts env pages = (imgs, Inr ts)"
proof (induction pages arbitrary: imgs ts)
  case Nil
  then show ?case by simp
next
  case (Cons p pages)
  from Cons.prems(1) obtain i rest where imgs: "imgs = i # rest" and p: "to_image p = Inr i"
    and r: "map to_image pages = map Inr rest" by (cases imgs) auto
  from Cons.prems(2) imgs obtain t ts' where ts: "ts = t # ts'"
    and o: "process_image_for_ocr env i = Inr t"
    and r': "map (process_image_for_ocr env) rest = map Inr ts'" by (cases ts) auto
  from Cons.IH[OF r r'] p o imgs ts show ?case by simp
qed

text \<open>
  C7, as stated, fails on the count of separators: the text recognised on a page may
  itself contain the marker. Two scanned pages, the first showing \<open>--- Page Break ---\<close>,
  give a text with two markers.
\<close>

theorem page_text_with_marker:
  "(case extract_text_from_pdf (scanned_env [''--- Page Break ---'', ''b'']) ''scan.pdf'' of
      Inl e \<Rightarrow> 0
    | Inr t \<Rightarrow> occurrences ''--- Page Break ---'' t) = 2"
  by (simp add: extract_text_from_pdf_def pdf_body_def handle_errors_def scanned_env_def
      process_image_for_ocr_def page_break_def strip_def char_defs Let_def)

text \<open>
  C7, amended. For a PDF that opens: when the digital text of its pages, joined by
  newlines and trimmed, is not empty, \<open>extract_text_from_pdf\<close> returns it and recognises
  no image. Otherwise, when every page is rendered and recognised without an exception,
  each page is recognised once, in order, and the result is the recognised texts joined by
  the page break; when none of these texts contains the marker \<open>--- Page Break ---\<close>, the
  result of \<open>n\<close> pages contains it \<open>n - 1\<close> times.
\<close>

theorem pdf_text:
  assumes "pdf_open env pdf_path = Inr pages"
  shows "(strip (join ''\<newline>'' (text_parts pages)) \<noteq> [] \<longrightarrow>
       extract_text_from_pdf env pdf_path = Inr (strip (join ''\<newline>'' (text_parts pages))) \<and>
       ocr_trace env pdf_path = []) \<and>
     (strip (join ''\<newline>'' (text_parts pages)) = [] \<and> map to_image pages = map Inr imgs \<and>
      map (process_image_for_ocr env) imgs = map Inr ts \<longrightarrow>
       extract_text_from_pdf env pdf_path = Inr (join page_break ts) \<and>
       ocr_trace env pdf_path = imgs \<and> length ts = length pages \<and>
       ((\<forall>t \<in> set ts. occurrences ''--- Page Break ---'' t = 0) \<longrightarrow>
          occurrences ''--- Page Break ---'' (join page_break ts) = length pages - 1))"
proof (intro conjI impI)
  assume "strip (join ''\<newline>'' (text_parts pages)) \<noteq> []"
  with assms show "extract_text_from_pdf env pdf_path = Inr (strip (join ''\<newline>'' (text_parts pages)))"
    and "ocr_trace env pdf_path = []"
    by (simp_all add: extract_text_from_pdf_def ocr_trace_def pdf_body_def handle_errors_def Let_def)
next
  assume h: "strip (join ''\<newline>'' (text_parts pages)) = [] \<and> map to_image pages = map Inr imgs \<and>
      map (process_image_for_ocr env) imgs = map Inr ts"
  then have itp: "image_text_parts env pages = (imgs, Inr ts)"
    by (simp add: image_text_parts_all)
  from h have "length (map to_image pages) = length (map (process_image_for_ocr env) imgs)"
    by (metis length_map)
  then show len: "length ts = length pages" using h by (metis length_map)
  from assms h itp show "extract_text_from_pdf env pdf_path = Inr (join page_break ts)"
    and "ocr_trace env pdf_path = imgs"
    by (simp_all add: extract_text_from_pdf_def ocr_trace_def pdf_body_def handle_errors_def Let_def)
  assume "\<forall>t \<in> set ts. occurrences ''--- Page Break ---'' t = 0"
  then show "occurrences ''--- Page Break ---'' (join page_break ts) = length pages - 1"
    using len by (simp add: occurrences_join)
qed

text \<open>
  A PDF with digital text, and two scanned pages.
\<close>

theorem pdf_text_witness:
  "extract_text_from_pdf (digital_env ''Insurance ID: XY-9'') ''report.pdf'' = Inr ''Insurance ID: XY-9'' \<and>
   ocr_trace (digital_env ''Insurance ID: XY-9'') ''report.pdf'' = [] \<and>
   extract_text_from_pdf (scanned_env [''one'', ''two'']) ''scan.pdf'' =
     Inr ''one\<newline>\<newline>--- Page Break ---\<newline>\<newline>two'' \<and>
   ocr_trace (scanned_env [''one'', ''two'']) ''scan.pdf'' = [''one'', ''two''] \<and>
   occurrences ''--- Page Break ---'' ''one\<newline>\<newline>--- Page Break ---\<newline>\<newline>two'' = 1"
proof -
  let ?d = "[\<lparr>extract_text = Some ''Insurance ID: XY-9'', to_image = Inr ()\<rparr>]"
  let ?s = "[\<lparr>extract_text = None, to_image = Inr ''one''\<rparr>,
             \<lparr>extract_text = None, to_image = Inr ''two''\<rparr>]"
  have d1: "pdf_open (digital_env ''Insurance ID: XY-9'') ''report.pdf'' = Inr ?d"
    by (simp add: digital_env_def)
  have d2: "strip (join ''\<newline>'' (text_parts ?d)) = ''Insurance ID: XY-9''"
    by (simp add: strip_def char_defs)
  have s1: "pdf_open (scanned_env [''one'', ''two'']) ''scan.pdf'' = Inr ?s"
    by (simp add: scanned_env_def)
  have s2: "strip (join ''\<newline>'' (text_parts ?s)) = []"
    by (simp add: strip_def)
  have s3: "map to_image ?s = map Inr [''one'', ''two'']"
    by simp
  have s4: "map (process_image_for_ocr (scanned_env [''one'', ''two''])) [''one'', ''two''] =
      map Inr [''one'', ''two'']"
    by (simp add: process_image_for_ocr_def scanned_env_def strip_def char_defs Let_def)
  have s5: "\<forall>t \<in> set [''one'', ''two'']. occurrences ''--- Page Break ---'' t = 0"
    by simp
  from pdf_text[OF d1, of "[]" "[]"] d2
    pdf_text[OF s1, of "[''one'', ''two'']" "[''one'', ''two'']"] s2 s3 s4 s5
  show ?thesis by (simp add: page_break_def)
qed

section \<open>Rejections\<close>

lemma endswith_mono: "endswith s xs \<Longrightarrow> endswith s (xs @ ys)"
  by (auto simp: endswith_def)

lemma field_of_no_match: "search pat text = None \<Longrightarrow> field_of pat text = ''Not found''"
  by (simp add: field_of_def)

lemma process_upload_Inl: "process_upload env file_path = Inl e \<Longrightarrow> exn_type e = RuntimeError"
  by (auto simp: process_upload_def handle_errors_def split: sum.splits)

text \<open>
  C4, as stated, fails: a missing file and an unsupported extension are rejected with
  the same class of exception, since \<open>handle_errors\<close> raises every exception again as a
  \<open>RuntimeError\<close>.
\<close>

theorem rejections_share_class:
  "process_upload (digital_env ''ID: 7'') ''missing.pdf'' =
     Inl (Exn RuntimeError ''Error in process_upload: The file was not found at: missing.pdf'') \<and>
   process_upload (digital_env ''ID: 7'') ''notes.txt'' =
     Inl (Exn RuntimeError
       ''Error in process_upload: Unsupported file format. Supported types: PDF, PNG, JPG, JPEG'')"
  by (simp add: process_upload_def process_upload_body_def handle_errors_def digital_env_def
      endswith_def lower_def image_types_def char_defs)

text \<open>
  C4, amended. Every rejection of \<open>process_upload\<close> is a \<open>RuntimeError\<close>; the five causes
  differ in its text, which after \<open>Error in process_upload: \<close> starts differently for a
  missing file, an unsupported extension, an image that fails verification, a text that
  is empty after trimming, and a text in which the identifier pattern does not match.
\<close>

theorem rejection_kinds:
  "(process_upload env file_path = Inl e \<longrightarrow> exn_type e = RuntimeError) \<and>
   (\<not> path_exists env file_path \<longrightarrow>
      process_upload env file_path = Inl (Exn RuntimeError
        (''Error in process_upload: The file was not found at: '' @ file_path))) \<and>
   (path_exists env file_path \<and> \<not> endswith (lower file_path) (image_types @ [''.pdf'']) \<longrightarrow>
      process_upload env file_path = Inl (Exn RuntimeError
        ''Error in process_upload: Unsupported file format. Supported types: PDF, PNG, JPG, JPEG'')) \<and>
   (path_exists env file_path \<and> endswith (lower file_path) image_types \<and>
    image_verify env file_path = Some msg \<longrightarrow>
      process_upload env file_path = Inl (Exn RuntimeError
        (''Error in process_upload: Invalid or corrupted image file: '' @ msg))) \<and>
   (path_exists env file_path \<and> endswith (lower file_path) (image_types @ [''.pdf'']) \<and>
    load_text env file_path = Inr text \<and> strip text = [] \<longrightarrow>
      process_upload env file_path = Inl (Exn RuntimeError
        ''Error in process_upload: No text could be extracted from the document.'')) \<and>
   (path_exists env file_path \<and> endswith (lower file_path) (image_types @ [''.pdf'']) \<and>
    load_text env file_path = Inr text \<and> strip text \<noteq> [] \<and> search patient_id_rx text = None \<longrightarrow>
      process_upload env file_path = Inl (Exn RuntimeError
        ''Error in process_upload: Could not find a valid Insurance ID, Patient ID, or Record ID in the document.''))"
proof (intro conjI impI)
  assume "process_upload env file_path = Inl e"
  then show "exn_type e = RuntimeError" by (rule process_upload_Inl)
next
  assume "\<not> path_exists env file_path"
  then show "process_upload env file_path = Inl (Exn RuntimeError
        (''Error in process_upload: The file was not found at: '' @ file_path))"
    by (simp add: process_upload_def process_upload_body_def handle_errors_def)
next
  assume "path_exists env file_path \<and> \<not> endswith (lower file_path) (image_types @ [''.pdf''])"
  then show "process_upload env file_path = Inl (Exn RuntimeError
        ''Error in process_upload: Unsupported file format. Supported types: PDF, PNG, JPG, JPEG'')"
    by (simp add: process_upload_def process_upload_body_def handle_errors_def)
next
  assume h: "path_exists env file_path \<and> endswith (lower file_path) image_types \<and>
    image_verify env file_path = Some msg"
  then have "endswith (lower file_path) (image_types @ [''.pdf''])"
    by (simp add: endswith_mono)
  with h show "process_upload env file_path = Inl (Exn RuntimeError
        (''Error in process_upload: Invalid or corrupted image file: '' @ msg))"
    by (simp add: process_upload_def process_upload_body_def handle_errors_def load_text_def)
next
  assume "path_exists env file_path \<and> endswith (lower file_path) (image_types @ [''.pdf'']) \<and>
    load_text env file_path = Inr text \<and> strip text = []"
  then show "process_upload env file_path = Inl (Exn RuntimeError
        ''Error in process_upload: No text could be extracted from the document.'')"
    by (simp add: process_upload_def process_upload_body_def handle_errors_def)
next
  assume "path_exists env file_path \<and> endswith (lower file_path) (image_types @ [''.pdf'']) \<and>
    load_text env file_path = Inr text \<and> strip text \<noteq> [] \<and> search patient_id_rx text = None"
  then show "process_upload env file_path = Inl (Exn RuntimeError
        ''Error in process_upload: Could not find a valid Insurance ID, Patient ID, or Record ID in the document.'')"
    by (simp add: process_upload_def process_upload_body_def handle_errors_def
        extract_fields_eq field_of_no_match)
qed

text \<open>
  The five rejections, each at a concrete upload.
\<close>

theorem rejection_kinds_witness:
  "process_upload (digital_env ''ID: 7'') ''missing.pdf'' = Inl (Exn RuntimeError
     ''Error in process_upload: The file was not found at: missing.pdf'') \<and>
   process_upload (digital_env ''ID: 7'') ''notes.txt'' = Inl (Exn RuntimeError
     ''Error in process_upload: Unsupported file format. Supported types: PDF, PNG, JPG, JPEG'') \<and>
   process_upload (digital_env ''ID: 7'') ''broken.png'' = Inl (Exn RuntimeError
     ''Error in process_upload: Invalid or corrupted image file: cannot identify image file'') \<and>
   process_upload (digital_env '' '') ''report.pdf'' = Inl (Exn RuntimeError
     ''Error in process_upload: No text could be extracted from the document.'') \<and>
   process_upload (digital_env ''Name: Bob'') ''report.pdf'' = Inl (Exn RuntimeError
     ''Error in process_upload: Could not find a valid Insurance ID, Patient ID, or Record ID in the document.'') \<and>
   exn_type (Exn RuntimeError
     ''Error in process_upload: The file was not found at: missing.pdf'') = RuntimeError"
proof -
  let ?e = "Exn RuntimeError ''Error in process_upload: The file was not found at: missing.pdf''"
  have pdf: "endswith (lower ''report.pdf'') (image_types @ [''.pdf''])"
    by (simp add: endswith_def lower_def image_types_def char_defs)
  have 1: "\<not> path_exists (digital_env ''ID: 7'') ''missing.pdf''"
    by (simp add: digital_env_def)
  have 2: "path_exists (digital_env ''ID: 7'') ''notes.txt'' \<and>
      \<not> endswith (lower ''notes.txt'') (image_types @ [''.pdf''])"
    by (simp add: digital_env_def endswith_def lower_def image_types_def char_defs)
  have 3: "path_exists (digital_env ''ID: 7'') ''broken.png'' \<and>
      endswith (lower ''broken.png'') image_types \<and>
      image_verify (digital_env ''ID: 7'') ''broken.png'' = Some ''cannot identify image file''"
    by (simp add: digital_env_def endswith_def lower_def image_types_def char_defs)
  have 4: "path_exists (digital_env '' '') ''report.pdf'' \<and>
      endswith (lower ''report.pdf'') (image_types @ [''.pdf'']) \<and>
      load_text (digital_env '' '') ''report.pdf'' = Inr [] \<and> strip [] = []"
    using pdf by (simp add: digital_env_def load_text_def extract_text_from_pdf_def pdf_body_def
        handle_errors_def process_image_for_ocr_def endswith_def lower_def image_types_def
        strip_def char_defs Let_def)
  have 5: "path_exists (digital_env ''Name: Bob'') ''report.pdf'' \<and>
      endswith (lower ''report.pdf'') (image_types @ [''.pdf'']) \<and>
      load_text (digital_env ''Name: Bob'') ''report.pdf'' = Inr ''Name: Bob'' \<and>
      strip ''Name: Bob'' \<noteq> [] \<and> search patient_id_rx ''Name: Bob'' = None"
    using pdf by (simp add: digital_env_def load_text_def extract_text_from_pdf_def pdf_body_def
        handle_errors_def endswith_def lower_def image_types_def
        strip_def char_defs Let_def pattern_defs rx_defs)
  have 6: "process_upload (digital_env ''ID: 7'') ''missing.pdf'' = Inl ?e \<longrightarrow>
      exn_type ?e = RuntimeError"
    using rejection_kinds[of "digital_env ''ID: 7''" "''missing.pdf''" ?e] by blast
  from rejection_kinds[of "digital_env ''ID: 7''" "''missing.pdf''"] 1
    rejection_kinds[of "digital_env ''ID: 7''" "''notes.txt''"] 2
    rejection_kinds[of "digital_env ''ID: 7''" "''broken.png''" _ "''cannot identify image file''"] 3
    rejection_kinds[of "digital_env '' ''" "''report.pdf''" _ _ "[]"] 4
    rejection_kinds[of "digital_env ''Name: Bob''" "''report.pdf''" _ _ "''Name: Bob''"] 5 6
  show ?thesis by simp
qed

section \<open>The field map\<close>

lemma field_of_cases:
  assumes "binds 1 pat"
  shows "(search pat text = None \<longrightarrow> field_of pat text = ''Not found'') \<and>
     (\<forall>m. search pat text = Some m \<longrightarrow> (\<exists>v. m 1 = Some v \<and> field_of pat text = clean_value v))"
proof (intro conjI allI impI)
  assume "search pat text = None"
  then show "field_of pat text = ''Not found''" by (simp add: field_of_def)
next
  fix m
  assume s: "search pat text = Some m"
  from search_binds[OF assms s] obtain v where "m 1 = Some v" by auto
  with s show "\<exists>v. m 1 = Some v \<and> field_of pat text = clean_value v"
    by (simp add: field_of_def)
qed

lemma clean_value_form:
  "trimmed (clean_value v) \<and> CHR ''\<newline>'' \<notin> set (clean_value v) \<and> single_spaced (clean_value v) \<and>
   (\<forall>c \<in> set (clean_value v). isspace c \<longrightarrow> c = CHR '' '')"
  using trimmed_clean_value[of v] collapse_space_only
  by (auto simp: clean_value_collapse newline_notin_collapse single_spaced_collapse)

lemma process_upload_Inr:
  "process_upload env file_path = Inr (flds, text) \<Longrightarrow>
   load_text env file_path = Inr text \<and> extract_fields text = Inr flds"
  by (auto simp: process_upload_def process_upload_body_def handle_errors_def
      split: sum.splits if_splits)

text \<open>
  C6. When \<open>process_upload\<close> succeeds, the keys of the field map are exactly the nine
  field names; the field of a pattern that does not match is the sentinel; the field of a
  pattern that matches is the cleaned text of group 1, which is trimmed, has no newline,
  and has no whitespace other than single spaces.
\<close>

theorem fieldmap_shape:
  assumes "process_upload env file_path = Inr (flds, text)"
  shows "dom flds = {''name'', ''age'', ''patient_id'', ''disease'', ''gender'', ''blood'',
       ''address'', ''phone'', ''medicines''} \<and>
     (\<forall>(key, pat) \<in> set patterns.
        (search pat text = None \<longrightarrow> flds key = Some ''Not found'') \<and>
        (\<forall>m. search pat text = Some m \<longrightarrow>
           (\<exists>v. m 1 = Some v \<and> flds key = Some (clean_value v) \<and>
              trimmed (clean_value v) \<and> CHR ''\<newline>'' \<notin> set (clean_value v) \<and>
              single_spaced (clean_value v) \<and>
              (\<forall>c \<in> set (clean_value v). isspace c \<longrightarrow> c = CHR '' ''))))"
proof -
  from assms have "extract_fields text = Inr flds"
    by (simp add: process_upload_Inr)
  then have flds: "flds = [''name'' \<mapsto> field_of name_rx text, ''age'' \<mapsto> field_of age_rx text,
     ''patient_id'' \<mapsto> field_of patient_id_rx text, ''disease'' \<mapsto> field_of disease_rx text,
     ''gender'' \<mapsto> field_of gender_rx text, ''blood'' \<mapsto> field_of blood_rx text,
     ''address'' \<mapsto> field_of address_rx text, ''phone'' \<mapsto> field_of phone_rx text,
     ''medicines'' \<mapsto> field_of medicines_rx text]"
    by (simp add: extract_fields_eq)
  have d: "dom flds = {''name'', ''age'', ''patient_id'', ''disease'', ''gender'', ''blood'',
       ''address'', ''phone'', ''medicines''}"
    unfolding flds by auto
  have v: "(search pat text = None \<longrightarrow> field_of pat text = ''Not found'') \<and>
        (\<forall>m. search pat text = Some m \<longrightarrow>
           (\<exists>v. m 1 = Some v \<and> field_of pat text = clean_value v \<and>
              trimmed (clean_value v) \<and> CHR ''\<newline>'' \<notin> set (clean_value v) \<and>
              single_spaced (clean_value v) \<and>
              (\<forall>c \<in> set (clean_value v). isspace c \<longrightarrow> c = CHR '' '')))"
    if "binds 1 pat" for pat
    using field_of_cases[OF that, of "text"] clean_value_form by blast
  have "(\<forall>(key, pat) \<in> set patterns.
        (search pat text = None \<longrightarrow> flds key = Some ''Not found'') \<and>
        (\<forall>m. search pat text = Some m \<longrightarrow>
           (\<exists>v. m 1 = Some v \<and> flds key = Some (clean_value v) \<and>
              trimmed (clean_value v) \<and> CHR ''\<newline>'' \<notin> set (clean_value v) \<and>
              single_spaced (clean_value v) \<and>
              (\<forall>c \<in> set (clean_value v). isspace c \<longrightarrow> c = CHR '' ''))))"
    unfolding patterns_def flds
    using binds_patterns[THEN v] by simp
  with d show ?thesis by simp
qed

text \<open>
  A PDF whose digital text is \<open>ID: 7\<close>.
\<close>

theorem fieldmap_shape_witness:
  "(case process_upload (digital_env ''ID: 7'') ''report.pdf'' of
      Inl e \<Rightarrow> False
    | Inr (flds, t) \<Rightarrow>
        dom flds = {''name'', ''age'', ''patient_id'', ''disease'', ''gender'', ''blood'',
          ''address'', ''phone'', ''medicines''} \<and>
        flds ''patient_id'' = Some ''7'' \<and> flds ''name'' = Some ''Not found'')"
proof -
  let ?F = "[''name'' \<mapsto> field_of name_rx ''ID: 7'', ''age'' \<mapsto> field_of age_rx ''ID: 7'',
     ''patient_id'' \<mapsto> field_of patient_id_rx ''ID: 7'', ''disease'' \<mapsto> field_of disease_rx ''ID: 7'',
     ''gender'' \<mapsto> field_of gender_rx ''ID: 7'', ''blood'' \<mapsto> field_of blood_rx ''ID: 7'',
     ''address'' \<mapsto> field_of address_rx ''ID: 7'', ''phone'' \<mapsto> field_of phone_rx ''ID: 7'',
     ''medicines'' \<mapsto> field_of medicines_rx ''ID: 7'']"
  have 1: "field_of patient_id_rx ''ID: 7'' = ''7''"
    by (simp add: ev)
  have 2: "search name_rx ''ID: 7'' = None"
    by (simp add: pattern_defs rx_defs char_defs)
  have 3: "search patient_id_rx ''ID: 7'' \<noteq> None"
    by (simp add: pattern_defs rx_defs char_defs)
  have h: "process_upload (digital_env ''ID: 7'') ''report.pdf'' = Inr (?F, ''ID: 7'')"
    by (simp add: upload_ev 1)
  have n: "(''name'', name_rx) \<in> set patterns" and p: "(''patient_id'', patient_id_rx) \<in> set patterns"
    by (simp_all add: patterns_def)
  have d: "dom ?F = {''name'', ''age'', ''patient_id'', ''disease'',
      ''gender'', ''blood'', ''address'', ''phone'', ''medicines''}"
    by (rule fieldmap_shape[OF h, THEN conjunct1])
  have a: "\<forall>(key, pat) \<in> set patterns.
        (search pat ''ID: 7'' = None \<longrightarrow> ?F key = Some ''Not found'') \<and>
        (\<forall>m. search pat ''ID: 7'' = Some m \<longrightarrow>
           (\<exists>v. m 1 = Some v \<and> ?F key = Some (clean_value v) \<and>
              trimmed (clean_value v) \<and> CHR ''\<newline>'' \<notin> set (clean_value v) \<and>
              single_spaced (clean_value v) \<and>
              (\<forall>c \<in> set (clean_value v). isspace c \<longrightarrow> c = CHR '' '')))"
    by (rule fieldmap_shape[OF h, THEN conjunct2])
  from bspec[OF a n] 2 have nf: "?F ''name'' = Some ''Not found''" by simp
  have "?F ''patient_id'' = Some ''7''" by (simp add: 1)
  with h d nf show ?thesis by simp
qed

section \<open>The identifier line\<close>

lemma search_skip:
  "\<forall>k < length pre. ms r (drop k (pre @ rest)) Map.empty = [] \<Longrightarrow>
   search r (pre @ rest) = search r rest"
proof (induction pre)
  case Nil
  show ?case by simp
next
  case (Cons c pre)
  from Cons.prems have 0: "ms r (c # pre @ rest) Map.empty = []" by fastforce
  have "\<forall>k < length pre. ms r (drop k (pre @ rest)) Map.empty = []"
  proof (intro allI impI)
    fix k
    assume "k < length pre"
    then have "Suc k < length (c # pre)" by simp
    with Cons.prems have "ms r (drop (Suc k) ((c # pre) @ rest)) Map.empty = []" by blast
    then show "ms r (drop k (pre @ rest)) Map.empty = []" by simp
  qed
  with Cons.IH 0 show ?case by simp
qed

lemma patient_id_line_end:
  "field_of patient_id_rx ''Patient ID: ABC-123'' = ''ABC-123''"
  by (simp add: ev)

lemma patient_id_line_newline:
  "field_of patient_id_rx (''Patient ID: ABC-123'' @ CHR ''\<newline>'' # q) = ''ABC-123''"
  by (simp add: ev)

lemma field_of_skip:
  "\<forall>k < length pre. ms r (drop k (pre @ rest)) Map.empty = [] \<Longrightarrow>
   field_of r (pre @ rest) = field_of r rest"
  by (simp add: field_of_def search_skip)

text \<open>
  C2, amended. When the text contains \<open>Patient ID: ABC-123\<close> up to the end of a line (it is
  followed by a newline or by the end of the text) and the identifier pattern matches at
  no position before it, field extraction gives \<open>patient_id\<close> the value \<open>ABC-123\<close>.
\<close>

theorem patient_id_line:
  assumes "text = pre @ ''Patient ID: ABC-123'' @ post"
    and "post = [] \<or> hd post = CHR ''\<newline>''"
    and "\<forall>k < length pre. ms patient_id_rx (drop k text) Map.empty = []"
  shows "\<exists>flds. extract_fields text = Inr flds \<and> flds ''patient_id'' = Some ''ABC-123''"
proof -
  have "field_of patient_id_rx text = field_of patient_id_rx (''Patient ID: ABC-123'' @ post)"
    using assms(3) unfolding assms(1) by (rule field_of_skip)
  also have "\<dots> = ''ABC-123''"
  proof (cases post)
    case Nil
    then show ?thesis by (simp add: patient_id_line_end)
  next
    case (Cons c q)
    with assms(2) have "post = CHR ''\<newline>'' # q" by simp
    then show ?thesis by (simp only: patient_id_line_newline)
  qed
  finally show ?thesis by (simp add: extract_fields_eq)
qed

text \<open>
  The line after a line with a name and before a line with an age.
\<close>

theorem patient_id_line_witness:
  "\<exists>flds. extract_fields ''Name: Bob\<newline>Patient ID: ABC-123\<newline>Age: 5'' = Inr flds \<and>
     flds ''patient_id'' = Some ''ABC-123''"
proof -
  have 1: "''Name: Bob\<newline>Patient ID: ABC-123\<newline>Age: 5'' =
      ''Name: Bob\<newline>'' @ ''Patient ID: ABC-123'' @ ''\<newline>Age: 5''"
    by simp
  have 2: "''\<newline>Age: 5'' = [] \<or> hd ''\<newline>Age: 5'' = CHR ''\<newline>''"
    by simp
  have 3: "\<forall>k < length ''Name: Bob\<newline>''.
      ms patient_id_rx (drop k ''Name: Bob\<newline>Patient ID: ABC-123\<newline>Age: 5'') Map.empty = []"
    by (simp only: length_Cons list.size(3) All_less_Suc less_nat_zero_code simp_thms)
      (simp add: pattern_defs rx_defs char_defs)
  from patient_id_line[OF 1 2 3] show ?thesis .
qed

end
